theory Spec2Isabelle
  imports Main
begin

section \<open>Data model\<close>

text \<open>
  A colour is the RGB tuple that \<^verbatim>\<open>hex_to_rgb\<close> returns and that
  \<^verbatim>\<open>getdata()\<close> yields for an RGB image: three Python integers. The program
  only compares colours and uses them as dictionary keys.

  The development covers steps 3 to 6 of \<^verbatim>\<open>main\<close>: the loop that fills
  \<^verbatim>\<open>color_list_map\<close>, the copy of the image's pixels into
  \<^verbatim>\<open>base_pixels\<close>, the computation of \<^verbatim>\<open>num_frames\<close> and the frame
  loop. The groups are taken as \<^verbatim>\<open>color_lists_rgb\<close>, that is after the
  comprehension \<^verbatim>\<open>[hex_to_rgb(c) for c in hex_list]\<close> of line 107 has
  turned each validated hex string into its tuple.

  Reading the arguments and the image, the progress bar, the messages on the standard
  output and writing the GIF are left out, and so is \<^verbatim>\<open>MemoryError\<close>: the
  store has no bound.
\<close>

type_synonym color = "nat \<times> nat \<times> nat"

type_synonym addr = nat

text \<open>The exceptions the modelled statements can raise; the frame loop's
  \<^verbatim>\<open>except Exception\<close> turns either into an aborted run.\<close>

datatype error = ZeroDivisionError | IndexError

text \<open>Python's \<^verbatim>\<open>a // b\<close> and \<^verbatim>\<open>a % b\<close> on integers (floor division, the
  remainder has the sign of the divisor), and list subscripts (a negative subscript
  counts from the end).\<close>

definition py_floordiv :: "int \<Rightarrow> int \<Rightarrow> error + int" where
  "py_floordiv a b = (if b = 0 then Inl ZeroDivisionError else Inr (a div b))"

definition py_mod :: "int \<Rightarrow> int \<Rightarrow> error + int" where
  "py_mod a b = (if b = 0 then Inl ZeroDivisionError else Inr (a mod b))"

definition py_index :: "'a list \<Rightarrow> int \<Rightarrow> error + nat" where
  "py_index xs i =
     (if 0 \<le> i \<and> i < int (length xs) then Inr (nat i)
      else if i < 0 \<and> - int (length xs) \<le> i then Inr (nat (int (length xs) + i))
      else Inl IndexError)"

definition py_getitem :: "'a list \<Rightarrow> int \<Rightarrow> error + 'a" where
  "py_getitem xs i = (case py_index xs i of Inl e \<Rightarrow> Inl e | Inr j \<Rightarrow> Inr (xs ! j))"

definition py_setitem :: "'a list \<Rightarrow> int \<Rightarrow> 'a \<Rightarrow> error + 'a list" where
  "py_setitem xs i v = (case py_index xs i of Inl e \<Rightarrow> Inl e | Inr j \<Rightarrow> Inr (xs[j := v]))"

section \<open>The colour registry (step 3, lines 100--117)\<close>

text \<open>
  The three variables the loop updates. \<^verbatim>\<open>warnings\<close> records, in order, the
  colour named by each warning the loop prints to the error stream.
\<close>

record registry =
  all_target_colors_rgb :: "color set"
  color_list_map :: "color \<rightharpoonup> nat"
  warnings :: "color list"

text \<open>The inner loop, \<^verbatim>\<open>for color_rgb in rgb_list\<close> (lines 110--117).\<close>

fun register_colors :: "nat \<Rightarrow> color list \<Rightarrow> registry \<Rightarrow> registry" where
  "register_colors i [] r = r"
| "register_colors i (color_rgb # rest) r =
     register_colors i rest
       ((if color_rgb \<in> all_target_colors_rgb r
         then r\<lparr>warnings := warnings r @ [color_rgb]\<rparr>
         else r\<lparr>color_list_map := (color_list_map r)(color_rgb \<mapsto> i)\<rparr>)
        \<lparr>all_target_colors_rgb := insert color_rgb (all_target_colors_rgb r)\<rparr>)"

text \<open>The outer loop over \<^verbatim>\<open>enumerate(...)\<close> (line 106).\<close>

fun register_lists :: "(nat \<times> color list) list \<Rightarrow> registry \<Rightarrow> registry" where
  "register_lists [] r = r"
| "register_lists ((i, rgb_list) # rest) r = register_lists rest (register_colors i rgb_list r)"

definition build_registry :: "color list list \<Rightarrow> registry" where
  "build_registry color_lists_rgb =
     register_lists (enumerate 0 color_lists_rgb)
       \<lparr>all_target_colors_rgb = {}, color_list_map = Map.empty, warnings = []\<rparr>"

section \<open>The number of frames (step 5, lines 25--27 and 141--146)\<close>

definition calculate_lcm :: "int \<Rightarrow> int \<Rightarrow> error + int" where
  "calculate_lcm a b =
     (if a \<noteq> 0 \<and> b \<noteq> 0 then py_floordiv \<bar>a * b\<bar> (gcd a b) else Inr 0)"

text \<open>The loop \<^verbatim>\<open>for i in range(1, len(color_lists_rgb))\<close>.\<close>

fun num_frames_loop :: "color list list \<Rightarrow> nat list \<Rightarrow> int \<Rightarrow> error + int" where
  "num_frames_loop color_lists_rgb [] num_frames = Inr num_frames"
| "num_frames_loop color_lists_rgb (i # rest) num_frames =
     (case py_getitem color_lists_rgb (int i) of
        Inl e \<Rightarrow> Inl e
      | Inr color_list \<Rightarrow>
          (case calculate_lcm num_frames (int (length color_list)) of
             Inl e \<Rightarrow> Inl e
           | Inr n \<Rightarrow> num_frames_loop color_lists_rgb rest n))"

definition compute_num_frames :: "color list list \<Rightarrow> error + int" where
  "compute_num_frames color_lists_rgb =
     (if color_lists_rgb \<noteq> [] then
        (case py_getitem color_lists_rgb 0 of
           Inl e \<Rightarrow> Inl e
         | Inr first \<Rightarrow>
             num_frames_loop color_lists_rgb [1..<length color_lists_rgb] (int (length first)))
      else Inr 1)"

section \<open>The colour mapping of one frame (lines 158--165)\<close>

text \<open>The inner loop, \<^verbatim>\<open>for i, original_color in enumerate(color_list)\<close>.\<close>

fun frame_map_colors ::
  "(color \<rightharpoonup> nat) \<Rightarrow> int \<Rightarrow> nat \<Rightarrow> color list \<Rightarrow> (nat \<times> color) list \<Rightarrow>
   (color \<rightharpoonup> color) \<Rightarrow> error + (color \<rightharpoonup> color)" where
  "frame_map_colors clm frame_index list_index color_list [] current_frame_map =
     Inr current_frame_map"
| "frame_map_colors clm frame_index list_index color_list ((i, original_color) # rest)
     current_frame_map =
     (if clm original_color = Some list_index then
        (case py_mod (int i + frame_index) (int (length color_list)) of
           Inl e \<Rightarrow> Inl e
         | Inr new_color_index \<Rightarrow>
             (case py_getitem color_list new_color_index of
                Inl e \<Rightarrow> Inl e
              | Inr new_color \<Rightarrow>
                  frame_map_colors clm frame_index list_index color_list rest
                    (current_frame_map(original_color \<mapsto> new_color))))
      else frame_map_colors clm frame_index list_index color_list rest current_frame_map)"

text \<open>The outer loop, \<^verbatim>\<open>for list_index, color_list in enumerate(color_lists_rgb)\<close>.\<close>

fun frame_map_lists ::
  "(color \<rightharpoonup> nat) \<Rightarrow> int \<Rightarrow> (nat \<times> color list) list \<Rightarrow>
   (color \<rightharpoonup> color) \<Rightarrow> error + (color \<rightharpoonup> color)" where
  "frame_map_lists clm frame_index [] current_frame_map = Inr current_frame_map"
| "frame_map_lists clm frame_index ((list_index, color_list) # rest) current_frame_map =
     (case frame_map_colors clm frame_index list_index color_list
             (enumerate 0 color_list) current_frame_map of
        Inl e \<Rightarrow> Inl e
      | Inr m \<Rightarrow> frame_map_lists clm frame_index rest m)"

definition build_frame_map ::
  "(color \<rightharpoonup> nat) \<Rightarrow> color list list \<Rightarrow> int \<Rightarrow> error + (color \<rightharpoonup> color)" where
  "build_frame_map clm color_lists_rgb frame_index =
     frame_map_lists clm frame_index (enumerate 0 color_lists_rgb) Map.empty"

section \<open>Rendering (lines 154 and 169--179)\<close>

text \<open>
  Python lists are mutable objects, and \<^verbatim>\<open>base_pixels\<close> and
  \<^verbatim>\<open>new_pixel_data\<close> are references to such objects. The store maps an
  address to the list that lives there; \<^verbatim>\<open>list(xs)\<close> allocates a new cell.
\<close>

record store =
  cells :: "addr \<Rightarrow> color list"
  next_free :: addr

definition new_list :: "color list \<Rightarrow> store \<Rightarrow> addr \<times> store" where
  "new_list xs s =
     (next_free s, s\<lparr>cells := (cells s)(next_free s := xs), next_free := Suc (next_free s)\<rparr>)"

text \<open>The pixel loop, \<^verbatim>\<open>for i in range(len(new_pixel_data))\<close>, writing into the
  list object at address \<open>new_pixel_data\<close>.\<close>

fun apply_color_mapping ::
  "(color \<rightharpoonup> color) \<Rightarrow> addr \<Rightarrow> nat list \<Rightarrow> store \<Rightarrow> error + store" where
  "apply_color_mapping current_frame_map new_pixel_data [] s = Inr s"
| "apply_color_mapping current_frame_map new_pixel_data (i # rest) s =
     (case py_getitem (cells s new_pixel_data) (int i) of
        Inl e \<Rightarrow> Inl e
      | Inr original_pixel \<Rightarrow>
          (case current_frame_map original_pixel of
             None \<Rightarrow> apply_color_mapping current_frame_map new_pixel_data rest s
           | Some new_color \<Rightarrow>
               (case py_setitem (cells s new_pixel_data) (int i) new_color of
                  Inl e \<Rightarrow> Inl e
                | Inr updated \<Rightarrow>
                    apply_color_mapping current_frame_map new_pixel_data rest
                      (s\<lparr>cells := (cells s)(new_pixel_data := updated)\<rparr>))))"

text \<open>
  One iteration of the frame loop (lines 154--179). The frame image receives a copy of
  the pixel data (\<^verbatim>\<open>putdata\<close>) and is appended to \<^verbatim>\<open>frames\<close>.
\<close>

definition generate_frame ::
  "(color \<rightharpoonup> nat) \<Rightarrow> color list list \<Rightarrow> addr \<Rightarrow> int \<Rightarrow> store \<Rightarrow> color list list \<Rightarrow>
   error + (store \<times> color list list)" where
  "generate_frame clm color_lists_rgb base_pixels frame_index s frames =
     (case new_list (cells s base_pixels) s of
        (new_pixel_data, s1) \<Rightarrow>
          (case build_frame_map clm color_lists_rgb frame_index of
             Inl e \<Rightarrow> Inl e
           | Inr current_frame_map \<Rightarrow>
               (case apply_color_mapping current_frame_map new_pixel_data
                       [0..<length (cells s1 new_pixel_data)] s1 of
                  Inl e \<Rightarrow> Inl e
                | Inr s2 \<Rightarrow> Inr (s2, frames @ [cells s2 new_pixel_data]))))"

text \<open>The frame loop, \<^verbatim>\<open>for frame_index in range(num_frames)\<close>.\<close>

fun generate_frames_loop ::
  "(color \<rightharpoonup> nat) \<Rightarrow> color list list \<Rightarrow> addr \<Rightarrow> int list \<Rightarrow> store \<Rightarrow> color list list \<Rightarrow>
   error + (store \<times> color list list)" where
  "generate_frames_loop clm color_lists_rgb base_pixels [] s frames = Inr (s, frames)"
| "generate_frames_loop clm color_lists_rgb base_pixels (frame_index # rest) s frames =
     (case generate_frame clm color_lists_rgb base_pixels frame_index s frames of
        Inl e \<Rightarrow> Inl e
      | Inr (s', frames') \<Rightarrow>
          generate_frames_loop clm color_lists_rgb base_pixels rest s' frames')"

text \<open>\<^verbatim>\<open>range(n)\<close> for an integer \<open>n\<close>: empty when \<open>n \<le> 0\<close>.\<close>

definition py_range :: "int \<Rightarrow> int list" where
  "py_range n = map int [0..<nat n]"

text \<open>
  Steps 3 to 6 in sequence. \<open>image_data\<close> is the pixel sequence of the RGB image
  obtained in step 4; line 139 copies it into the new list \<^verbatim>\<open>base_pixels\<close>.
  The result holds the address of \<^verbatim>\<open>base_pixels\<close>, the store after the frame
  loop and \<^verbatim>\<open>frames\<close>.
\<close>

definition generate_frames ::
  "color list list \<Rightarrow> color list \<Rightarrow> store \<Rightarrow> error + (addr \<times> store \<times> color list list)" where
  "generate_frames color_lists_rgb image_data s =
     (case new_list image_data s of
        (base_pixels, s1) \<Rightarrow>
          (case compute_num_frames color_lists_rgb of
             Inl e \<Rightarrow> Inl e
           | Inr num_frames \<Rightarrow>
               (case generate_frames_loop (color_list_map (build_registry color_lists_rgb))
                       color_lists_rgb base_pixels (py_range num_frames) s1 [] of
                  Inl e \<Rightarrow> Inl e
                | Inr (s2, frames) \<Rightarrow> Inr (base_pixels, s2, frames))))"

section \<open>Notions used in the statements\<close>

text \<open>
  The colours found at those positions of a scan \<open>xs\<close> whose colour is already in
  \<open>S\<close> or occurs at an earlier position of \<open>xs\<close>, in scan order; with \<open>S\<close>
  empty, the re-occurrences within \<open>xs\<close>.
\<close>

abbreviation repeats :: "'a set \<Rightarrow> 'a list \<Rightarrow> 'a list" where
  "repeats S xs \<equiv> map ((!) xs) (filter (\<lambda>j. xs ! j \<in> S \<union> set (take j xs)) [0..<length xs])"

abbreviation reoccurrences :: "'a list \<Rightarrow> 'a list" where
  "reoccurrences xs \<equiv> map ((!) xs) (filter (\<lambda>j. xs ! j \<in> set (take j xs)) [0..<length xs])"

text \<open>
  The colour a group shows at position \<open>i\<close> once rotated by the frame index, and the
  effect of one iteration of the inner and of the outer loop of the mapping on the
  dictionary when no statement raises.
\<close>

abbreviation rotated :: "'a list \<Rightarrow> int \<Rightarrow> nat \<Rightarrow> 'a" where
  "rotated color_list frame_index i \<equiv>
     color_list ! nat ((int i + frame_index) mod int (length color_list))"

abbreviation colors_step ::
  "(color \<rightharpoonup> nat) \<Rightarrow> int \<Rightarrow> nat \<Rightarrow> color list \<Rightarrow> nat \<times> color \<Rightarrow>
   (color \<rightharpoonup> color) \<Rightarrow> (color \<rightharpoonup> color)" where
  "colors_step clm k li cl e m \<equiv>
     (if clm (snd e) = Some li then m(snd e \<mapsto> rotated cl k (fst e)) else m)"

abbreviation lists_step ::
  "(color \<rightharpoonup> nat) \<Rightarrow> int \<Rightarrow> nat \<times> color list \<Rightarrow> (color \<rightharpoonup> color) \<Rightarrow> (color \<rightharpoonup> color)" where
  "lists_step clm k e m \<equiv> fold (colors_step clm k (fst e) (snd e)) (enumerate 0 (snd e)) m"

text \<open>
  The pixel a mapping puts in place of \<open>p\<close>, and the mapping of frame \<open>k\<close> as the
  iterated effect of the outer loop on the empty dictionary.
\<close>

abbreviation substituted :: "('a \<rightharpoonup> 'a) \<Rightarrow> 'a \<Rightarrow> 'a" where
  "substituted t p \<equiv> (case t p of None \<Rightarrow> p | Some v \<Rightarrow> v)"

abbreviation frame_table :: "(color \<rightharpoonup> nat) \<Rightarrow> color list list \<Rightarrow> int \<Rightarrow> (color \<rightharpoonup> color)" where
  "frame_table clm gs k \<equiv> fold (lists_step clm k) (enumerate 0 gs) Map.empty"

section \<open>Python subscripts in range\<close>

lemma py_getitem_nat: "i < length xs \<Longrightarrow> py_getitem xs (int i) = Inr (xs ! i)"
  by (simp add: py_getitem_def py_index_def)

lemma py_mod_length: "xs \<noteq> [] \<Longrightarrow> py_mod a (int (length xs)) = Inr (a mod int (length xs))"
  by (simp add: py_mod_def)

lemma py_getitem_mod:
  "xs \<noteq> [] \<Longrightarrow> py_getitem xs (a mod int (length xs)) = Inr (xs ! nat (a mod int (length xs)))"
  by (simp add: py_getitem_def py_index_def)

lemma py_setitem_nat: "i < length xs \<Longrightarrow> py_setitem xs (int i) v = Inr (xs[i := v])"
  by (simp add: py_setitem_def py_index_def)

section \<open>The number of frames is the least common multiple\<close>

lemma calculate_lcm_eq: "calculate_lcm a b = Inr (lcm a b)"
  unfolding calculate_lcm_def py_floordiv_def
  by (simp add: abs_mult lcm_altdef_int)

lemma num_frames_loop_fold:
  "\<forall>i\<in>set is. i < length cl \<Longrightarrow>
   num_frames_loop cl is n = Inr (fold (\<lambda>i n. lcm n (int (length (cl ! i)))) is n)"
  by (induction "is" arbitrary: n) (simp_all add: py_getitem_nat calculate_lcm_eq)

lemma map_nth_upt_drop: "map ((!) xs) [i..<length xs] = drop i xs"
  by (rule nth_equalityI) auto

lemma fold_lcm_lengths:
  "fold (\<lambda>g n. lcm n (int (length g))) gs (int m) = int (lcm m (Lcm (set (map length gs))))"
proof (induction gs arbitrary: m)
  case Nil
  then show ?case by simp
next
  case (Cons g gs)
  have "lcm (int m) (int (length g)) = int (lcm m (length g))"
    by simp
  then show ?case using Cons.IH [of "lcm m (length g)"]
    by (simp add: lcm.assoc)
qed

lemma compute_num_frames_Lcm:
  "compute_num_frames gs = Inr (int (Lcm (set (map length gs))))"
proof (cases gs)
  case Nil
  then show ?thesis by (simp add: compute_num_frames_def)
next
  case (Cons g rest)
  have "num_frames_loop gs [1..<length gs] (int (length g)) =
        Inr (fold (\<lambda>i n. lcm n (int (length (gs ! i)))) [1..<length gs] (int (length g)))"
    by (rule num_frames_loop_fold) simp
  also have "fold (\<lambda>i n. lcm n (int (length (gs ! i)))) [1..<length gs] (int (length g)) =
        fold (\<lambda>g n. lcm n (int (length g))) (map ((!) gs) [1..<length gs]) (int (length g))"
    by (simp add: fold_map comp_def)
  also have "map ((!) gs) [1..<length gs] = drop 1 gs"
    by (rule map_nth_upt_drop)
  also have "drop 1 gs = rest"
    using Cons by simp
  also have "fold (\<lambda>g n. lcm n (int (length g))) rest (int (length g)) =
        int (lcm (length g) (Lcm (set (map length rest))))"
    by (rule fold_lcm_lengths)
  finally show ?thesis
    using Cons by (simp add: compute_num_frames_def py_getitem_def py_index_def)
qed

lemma lcm_examples: "lcm (2::nat) 3 = 6" "lcm (4::nat) 6 = 12" "gcd (4::int) 6 = 2"
  by code_simp+

lemma compute_num_frames_fold:
  "compute_num_frames (g # rest) =
     Inr (fold (\<lambda>h n. lcm n (int (length h))) rest (int (length g)))"
  using compute_num_frames_Lcm [of "g # rest"] fold_lcm_lengths [of rest "length g"]
  by simp

text \<open>
  Claim C2. The number of frames is the least common multiple of the lengths of all
  groups; it is reached by folding the pairwise \<^verbatim>\<open>calculate_lcm\<close> over the
  groups from the left, where \<^verbatim>\<open>calculate_lcm a b\<close> is \<open>lcm a b\<close>, computed
  as \<open>\<bar>a * b\<bar> div gcd a b\<close> when neither argument is zero. Without groups the number
  of frames is 1; groups of lengths 2 and 3 give 6, lengths 4 and 6 give 12, and a single
  group of length 5 gives 5. No step of the computation raises.
\<close>

theorem cycle_length_is_lcm:
  "compute_num_frames gs = Inr (int (Lcm (set (map length gs))))
   \<and> compute_num_frames (g # rest) =
       Inr (fold (\<lambda>h n. lcm n (int (length h))) rest (int (length g)))
   \<and> calculate_lcm a b = Inr (lcm a b)
   \<and> (a \<noteq> 0 \<and> b \<noteq> 0 \<longrightarrow> calculate_lcm a b = Inr (\<bar>a * b\<bar> div gcd a b))
   \<and> compute_num_frames [] = Inr 1
   \<and> (\<forall>hs. map length hs = [2, 3] \<longrightarrow> compute_num_frames hs = Inr 6)
   \<and> (\<forall>hs. map length hs = [4, 6] \<longrightarrow> compute_num_frames hs = Inr 12)
   \<and> (\<forall>hs. map length hs = [5] \<longrightarrow> compute_num_frames hs = Inr 5)"
proof -
  have 1: "a \<noteq> 0 \<and> b \<noteq> 0 \<longrightarrow> calculate_lcm a b = Inr (\<bar>a * b\<bar> div gcd a b)"
    by (simp add: calculate_lcm_def py_floordiv_def)
  have 2: "\<forall>hs. map length hs = [2, 3] \<longrightarrow> compute_num_frames hs = Inr 6"
    by (simp add: compute_num_frames_Lcm lcm_examples)
  have 3: "\<forall>hs. map length hs = [4, 6] \<longrightarrow> compute_num_frames hs = Inr 12"
    by (simp add: compute_num_frames_Lcm lcm_examples)
  have 4: "\<forall>hs. map length hs = [5] \<longrightarrow> compute_num_frames hs = Inr 5"
    by (simp add: compute_num_frames_Lcm)
  have 5: "compute_num_frames [] = Inr 1"
    by (simp add: compute_num_frames_def)
  show ?thesis
    using 1 2 3 4 5 compute_num_frames_Lcm [of gs] compute_num_frames_fold [of g rest]
      calculate_lcm_eq [of a b]
    by blast
qed

theorem cycle_length_is_lcm_witness:
  "(4::int) \<noteq> 0 \<and> (6::int) \<noteq> 0 \<and> calculate_lcm 4 6 = Inr 12
   \<and> map length ([[(255,0,0),(0,255,0)], [(0,0,255),(1,1,1),(2,2,2)]] :: color list list)
       = [2, 3]
   \<and> compute_num_frames [[(255,0,0),(0,255,0)], [(0,0,255),(1,1,1),(2,2,2)]] = Inr 6
   \<and> map length ([[(1,0,0),(2,0,0),(3,0,0),(4,0,0)],
         [(1,1,0),(2,1,0),(3,1,0),(4,1,0),(5,1,0),(6,1,0)]] :: color list list) = [4, 6]
   \<and> compute_num_frames [[(1,0,0),(2,0,0),(3,0,0),(4,0,0)],
         [(1,1,0),(2,1,0),(3,1,0),(4,1,0),(5,1,0),(6,1,0)]] = Inr 12
   \<and> map length ([[(1,0,0),(2,0,0),(3,0,0),(4,0,0),(5,0,0)]] :: color list list) = [5]
   \<and> compute_num_frames [[(1,0,0),(2,0,0),(3,0,0),(4,0,0),(5,0,0)]] = Inr 5"
proof -
  note t = cycle_length_is_lcm [of "[]" "[]" "[]" 4 6]
  have n: "(4::int) \<noteq> 0 \<and> (6::int) \<noteq> 0"
    by simp
  from t have "(4::int) \<noteq> 0 \<and> (6::int) \<noteq> 0 \<longrightarrow> calculate_lcm 4 6 = Inr (\<bar>4 * 6\<bar> div gcd 4 6)"
    by (elim conjE)
  from this [rule_format, OF n] have c: "calculate_lcm 4 6 = Inr 12"
    by (simp add: lcm_examples)
  from t have a1: "\<forall>hs. map length hs = [2, 3] \<longrightarrow> compute_num_frames hs = Inr 6"
    by (elim conjE)
  from t have a2: "\<forall>hs. map length hs = [4, 6] \<longrightarrow> compute_num_frames hs = Inr 12"
    by (elim conjE)
  from t have a3: "\<forall>hs. map length hs = [5] \<longrightarrow> compute_num_frames hs = Inr 5"
    by (elim conjE)
  have h1: "map length ([[(255,0,0),(0,255,0)], [(0,0,255),(1,1,1),(2,2,2)]] :: color list list)
      = [2, 3]"
    by simp
  have h2: "map length ([[(1,0,0),(2,0,0),(3,0,0),(4,0,0)],
         [(1,1,0),(2,1,0),(3,1,0),(4,1,0),(5,1,0),(6,1,0)]] :: color list list) = [4, 6]"
    by simp
  have h3: "map length ([[(1,0,0),(2,0,0),(3,0,0),(4,0,0),(5,0,0)]] :: color list list) = [5]"
    by simp
  show ?thesis
    using n c h1 h2 h3 a1 [rule_format, OF h1] a2 [rule_format, OF h2] a3 [rule_format, OF h3]
    by simp
qed

section \<open>The registry: the first claim wins\<close>

lemma repeats_Cons:
  "repeats S (x # xs) = (if x \<in> S then [x] else []) @ repeats (insert x S) xs"
proof -
  have "[0..<length (x # xs)] = 0 # map Suc [0..<length xs]"
    by (simp add: upt_conv_Cons map_Suc_upt del: upt_Suc)
  then show ?thesis
    by (simp add: filter_map comp_def disj_ac del: upt_Suc)
qed

lemma repeats_append: "repeats S (xs @ ys) = repeats S xs @ repeats (S \<union> set xs) ys"
proof (induction xs arbitrary: S)
  case Nil
  show ?case by simp
next
  case (Cons x xs)
  have "repeats S ((x # xs) @ ys) = (if x \<in> S then [x] else []) @ repeats (insert x S) (xs @ ys)"
    using repeats_Cons [where S = S and x = x and xs = "xs @ ys"] by simp
  also have "repeats (insert x S) (xs @ ys) =
      repeats (insert x S) xs @ repeats (insert x S \<union> set xs) ys"
    by (rule Cons.IH)
  finally show ?case
    using repeats_Cons [where S = S and x = x and xs = xs] by simp
qed

lemma register_colors_targets:
  "all_target_colors_rgb (register_colors i cs r) = all_target_colors_rgb r \<union> set cs"
  by (induction cs arbitrary: r) auto

lemma register_colors_map:
  "color_list_map (register_colors i cs r) c =
     (if c \<in> set cs \<and> c \<notin> all_target_colors_rgb r then Some i else color_list_map r c)"
  by (induction cs arbitrary: r) auto

lemma register_colors_warnings:
  "warnings (register_colors i cs r) = warnings r @ repeats (all_target_colors_rgb r) cs"
proof (induction cs arbitrary: r)
  case Nil
  show ?case by simp
next
  case (Cons x cs)
  show ?case
    unfolding repeats_Cons [where x = x and xs = cs]
    by (simp add: Cons.IH)
qed

lemma register_lists_targets:
  "all_target_colors_rgb (register_lists (enumerate n gs) r) =
     all_target_colors_rgb r \<union> \<Union> (set ` set gs)"
  by (induction gs arbitrary: n r) (auto simp: register_colors_targets)

lemma register_lists_warnings:
  "warnings (register_lists (enumerate n gs) r) =
     warnings r @ repeats (all_target_colors_rgb r) (concat gs)"
proof (induction gs arbitrary: n r)
  case Nil
  show ?case by simp
next
  case (Cons g gs)
  show ?case
    unfolding concat.simps repeats_append
    by (simp add: Cons.IH register_colors_warnings register_colors_targets)
qed

lemma register_lists_map:
  "color_list_map (register_lists (enumerate n gs) r) c =
     (if c \<in> all_target_colors_rgb r then color_list_map r c
      else (case List.find (\<lambda>e. c \<in> set (snd e)) (enumerate n gs) of
              None \<Rightarrow> color_list_map r c
            | Some e \<Rightarrow> Some (fst e)))"
  by (induction gs arbitrary: n r)
    (auto simp: register_colors_targets register_colors_map split: option.splits)

lemma find_enumerate_first:
  "List.find (\<lambda>e. c \<in> set (snd e)) (enumerate 0 gs) = Some e \<longleftrightarrow>
     fst e < length gs \<and> snd e = gs ! fst e \<and> c \<in> set (gs ! fst e) \<and> (\<forall>j<fst e. c \<notin> set (gs ! j))"
  by (auto simp: find_Some_iff nth_enumerate_eq prod_eq_iff)


lemma build_registry_map:
  "color_list_map (build_registry gs) c = Some i \<longleftrightarrow>
     i < length gs \<and> c \<in> set (gs ! i) \<and> (\<forall>j<i. c \<notin> set (gs ! j))"
proof -
  have "color_list_map (build_registry gs) c =
      map_option fst (List.find (\<lambda>e. c \<in> set (snd e)) (enumerate 0 gs))"
    by (simp add: build_registry_def register_lists_map split: option.splits)
  then show ?thesis
    using find_enumerate_first [of c gs "(i, gs ! i)"]
    by (auto simp: find_enumerate_first prod_eq_iff)
qed

lemma build_registry_dom: "dom (color_list_map (build_registry gs)) = \<Union> (set ` set gs)"
proof -
  have "color_list_map (build_registry gs) c = None \<longleftrightarrow> c \<notin> \<Union> (set ` set gs)" for c
  proof -
    have "snd ` set (enumerate 0 gs) = set gs"
      by (metis map_snd_enumerate set_map)
    then have "(\<exists>e\<in>set (enumerate 0 gs). c \<in> set (snd e)) \<longleftrightarrow> c \<in> \<Union> (set ` set gs)"
      by (metis (no_types, lifting) UN_iff imageE image_eqI)
    then have "List.find (\<lambda>e. c \<in> set (snd e)) (enumerate 0 gs) = None \<longleftrightarrow>
        c \<notin> \<Union> (set ` set gs)"
      using find_None_iff [of "\<lambda>e. c \<in> set (snd e)" "enumerate 0 gs"] by blast
    moreover have "color_list_map (build_registry gs) c = None \<longleftrightarrow>
        List.find (\<lambda>e. c \<in> set (snd e)) (enumerate 0 gs) = None"
      by (simp add: build_registry_def register_lists_map split: option.splits)
    ultimately show ?thesis
      by (rule trans [rotated])
  qed
  then show ?thesis
    by (auto simp: dom_def)
qed

lemma build_registry_append:
  "c \<in> \<Union> (set ` set gs) \<Longrightarrow>
   color_list_map (build_registry (gs @ hs)) c = color_list_map (build_registry gs) c"
proof -
  assume c: "c \<in> \<Union> (set ` set gs)"
  then obtain i where i: "color_list_map (build_registry gs) c = Some i"
    using build_registry_dom [of gs] by (auto simp: dom_def)
  then have "i < length gs \<and> c \<in> set (gs ! i) \<and> (\<forall>j<i. c \<notin> set (gs ! j))"
    by (simp add: build_registry_map)
  then have "i < length (gs @ hs) \<and> c \<in> set ((gs @ hs) ! i) \<and> (\<forall>j<i. c \<notin> set ((gs @ hs) ! j))"
    by (auto simp: nth_append)
  then have "color_list_map (build_registry (gs @ hs)) c = Some i"
    using build_registry_map [of "gs @ hs" c i] by blast
  with i show ?thesis by simp
qed

text \<open>
  Claim C5. Scanning the groups in input order, \<^verbatim>\<open>color_list_map\<close> sends a
  colour to index \<open>i\<close> exactly when group \<open>i\<close> is the first group that contains it;
  its keys are exactly the colours of the groups, so each of them has one owner.
  Groups scanned later never change the owner of a colour already claimed. The warnings
  are, in scan order, the colours at the positions of the scan that repeat an earlier
  colour (of the same or an earlier group): one warning per re-occurrence. The loop has
  no failing branch, so the scan always runs to the end.
\<close>

theorem registry_first_claim_wins:
  "(color_list_map (build_registry gs) c = Some i \<longleftrightarrow>
      i < length gs \<and> c \<in> set (gs ! i) \<and> (\<forall>j<i. c \<notin> set (gs ! j)))
   \<and> dom (color_list_map (build_registry gs)) = \<Union> (set ` set gs)
   \<and> (c \<in> \<Union> (set ` set gs) \<longrightarrow>
        color_list_map (build_registry (gs @ hs)) c = color_list_map (build_registry gs) c)
   \<and> warnings (build_registry gs) = reoccurrences (concat gs)"
proof -
  have "warnings (build_registry gs) = reoccurrences (concat gs)"
    by (simp add: build_registry_def register_lists_warnings)
  then show ?thesis
    using build_registry_map [of gs c i] build_registry_dom [of gs]
      build_registry_append [of c gs hs]
    by blast
qed

theorem registry_first_claim_wins_witness:
  "color_list_map (build_registry [[(255,0,0),(0,255,0)], [(0,255,0),(0,0,255)]]) (0,255,0) = Some 0
   \<and> (0,255,0) \<in> \<Union> (set ` set [[(255,0,0),(0,255,0)], [(0,255,0),(0,0,255::nat)]])
   \<and> color_list_map (build_registry
        ([[(255,0,0),(0,255,0)], [(0,255,0),(0,0,255)]] @ [[(0,255,0),(7,7,7)]])) (0,255,0) = Some 0
   \<and> warnings (build_registry [[(255,0,0),(0,255,0)], [(0,255,0),(0,0,255)]]) = [(0,255,0)]"
proof -
  note t = registry_first_claim_wins [of "[[(255,0,0),(0,255,0)], [(0,255,0),(0,0,255)]]"
      "(0,255,0)" 0 "[[(0,255,0),(7,7,7)]]"]
  have h: "((0::nat),(255::nat),(0::nat)) \<in> \<Union> (set ` set [[(255,0,0),(0,255,0)], [(0,255,0),(0,0,255)]])"
    by simp
  show ?thesis
    using t h by (simp add: upt_rec)
qed

section \<open>The colour mapping of a frame\<close>

lemma frame_map_colors_fold:
  "cl \<noteq> [] \<Longrightarrow>
   frame_map_colors clm k li cl es m = Inr (fold (colors_step clm k li cl) es m)"
  by (induction es arbitrary: m) (auto simp: py_mod_length py_getitem_mod)

lemma frame_map_colors_enumerate:
  "frame_map_colors clm k li cl (enumerate 0 cl) m =
     Inr (fold (colors_step clm k li cl) (enumerate 0 cl) m)"
  by (cases "cl = []") (simp_all add: frame_map_colors_fold)

lemma frame_map_lists_fold:
  "frame_map_lists clm k es m = Inr (fold (lists_step clm k) es m)"
  by (induction es arbitrary: m) (auto simp: frame_map_colors_enumerate cong: if_cong)

lemma colors_fold_other:
  "c \<notin> set xs \<or> clm c \<noteq> Some li \<Longrightarrow>
   fold (colors_step clm k li cl) (enumerate n xs) m c = m c"
  by (induction xs arbitrary: n m) auto

lemma colors_fold_last:
  "p < length xs \<Longrightarrow> xs ! p = c \<Longrightarrow> \<forall>q. p < q \<and> q < length xs \<longrightarrow> xs ! q \<noteq> c \<Longrightarrow>
   clm c = Some li \<Longrightarrow>
   fold (colors_step clm k li cl) (enumerate n xs) m c = Some (rotated cl k (n + p))"
proof (induction xs arbitrary: n m p)
  case Nil
  then show ?case by simp
next
  case (Cons x xs)
  show ?case
  proof (cases p)
    case 0
    with Cons.prems have "c \<notin> set xs"
      by (auto simp: in_set_conv_nth)
    then have "fold (colors_step clm k li cl) (enumerate (Suc n) xs)
        (colors_step clm k li cl (n, x) m) c = colors_step clm k li cl (n, x) m c"
      using colors_fold_other by blast
    with 0 Cons.prems show ?thesis by simp
  next
    case (Suc p')
    with Cons.prems have "p' < length xs" "xs ! p' = c" "\<forall>q. p' < q \<and> q < length xs \<longrightarrow> xs ! q \<noteq> c"
      by auto
    from Cons.IH [OF this \<open>clm c = Some li\<close>, of "Suc n"] Suc show ?thesis
      by simp
  qed
qed

lemma colors_fold_dom:
  "dom (fold (colors_step clm k li cl) (enumerate n xs) m) =
     dom m \<union> {c \<in> set xs. clm c = Some li}"
  by (induction xs arbitrary: n m) auto

lemma lists_fold_other:
  "\<forall>li. clm c = Some li \<longrightarrow> \<not> (n \<le> li \<and> li < n + length gs \<and> c \<in> set (gs ! (li - n))) \<Longrightarrow>
   fold (lists_step clm k) (enumerate n gs) m c = m c"
proof (induction gs arbitrary: n m)
  case Nil
  show ?case by simp
next
  case (Cons g gs)
  have "\<not> (Suc n \<le> li \<and> li < Suc n + length gs \<and> c \<in> set (gs ! (li - Suc n)))"
    if "clm c = Some li" for li
  proof
    assume a: "Suc n \<le> li \<and> li < Suc n + length gs \<and> c \<in> set (gs ! (li - Suc n))"
    then have "li - n = Suc (li - Suc n)"
      by arith
    then have "(g # gs) ! (li - n) = gs ! (li - Suc n)"
      by simp
    with a that Cons.prems show False
      by auto
  qed
  then have "fold (lists_step clm k) (enumerate (Suc n) gs) (lists_step clm k (n, g) m) c =
      lists_step clm k (n, g) m c"
    by (intro Cons.IH) blast
  moreover have "c \<notin> set g \<or> clm c \<noteq> Some n"
    using Cons.prems by auto
  then have "lists_step clm k (n, g) m c = m c"
    using colors_fold_other [where c = c and xs = g and clm = clm and li = n and k = k and cl = g
        and n = 0 and m = m] by (simp cong: if_cong)
  ultimately show ?case by simp
qed

lemma lists_fold_owner:
  "gi < length gs \<Longrightarrow> clm c = Some (n + gi) \<Longrightarrow> p < length (gs ! gi) \<Longrightarrow> gs ! gi ! p = c \<Longrightarrow>
   \<forall>q. p < q \<and> q < length (gs ! gi) \<longrightarrow> gs ! gi ! q \<noteq> c \<Longrightarrow>
   fold (lists_step clm k) (enumerate n gs) m c = Some (rotated (gs ! gi) k p)"
proof (induction gs arbitrary: n m gi)
  case Nil
  then show ?case by simp
next
  case (Cons g gs)
  show ?case
  proof (cases gi)
    case 0
    with Cons.prems have "lists_step clm k (n, g) m c = Some (rotated g k p)"
      using colors_fold_last [where p = p and xs = g and c = c and clm = clm and li = n and k = k
          and cl = g and n = 0 and m = m] by (simp cong: if_cong)
    moreover have "fold (lists_step clm k) (enumerate (Suc n) gs) (lists_step clm k (n, g) m) c =
        lists_step clm k (n, g) m c"
      using 0 Cons.prems by (intro lists_fold_other) simp
    ultimately show ?thesis
      using 0 by simp
  next
    case (Suc gi')
    with Cons.prems have "gi' < length gs" "clm c = Some (Suc n + gi')" "p < length (gs ! gi')"
      "gs ! gi' ! p = c" "\<forall>q. p < q \<and> q < length (gs ! gi') \<longrightarrow> gs ! gi' ! q \<noteq> c"
      by auto
    from Cons.IH [OF this] Suc show ?thesis
      by simp
  qed
qed

lemma last_position_exists:
  "c \<in> set xs \<Longrightarrow> \<exists>p<length xs. xs ! p = c \<and> (\<forall>q. p < q \<and> q < length xs \<longrightarrow> xs ! q \<noteq> c)"
proof (induction xs rule: rev_induct)
  case Nil
  then show ?case by simp
next
  case (snoc x xs)
  show ?case
  proof (cases "x = c")
    case True
    then show ?thesis
      by (intro exI [of _ "length xs"]) auto
  next
    case False
    with snoc obtain p where p: "p < length xs" "xs ! p = c"
      "\<forall>q. p < q \<and> q < length xs \<longrightarrow> xs ! q \<noteq> c"
      by auto
    with False show ?thesis
      by (intro exI [of _ p]) (auto simp: nth_append)
  qed
qed

lemma build_frame_map_fold:
  "build_frame_map clm gs k = Inr (fold (lists_step clm k) (enumerate 0 gs) Map.empty)"
  by (simp add: build_frame_map_def frame_map_lists_fold)

lemma build_frame_map_owner:
  assumes "i < length gs" "c \<in> set (gs ! i)" "\<forall>j<i. c \<notin> set (gs ! j)"
    and "p < length (gs ! i)" "gs ! i ! p = c" "\<forall>q. p < q \<and> q < length (gs ! i) \<longrightarrow> gs ! i ! q \<noteq> c"
  shows "build_frame_map (color_list_map (build_registry gs)) gs k =
     Inr (fold (lists_step (color_list_map (build_registry gs)) k) (enumerate 0 gs) Map.empty)
   \<and> fold (lists_step (color_list_map (build_registry gs)) k) (enumerate 0 gs) Map.empty c =
       Some (rotated (gs ! i) k p)"
proof -
  have "color_list_map (build_registry gs) c = Some (0 + i)"
    using assms(1-3) by (simp add: build_registry_map)
  with assms show ?thesis
    using lists_fold_owner [where gi = i and gs = gs and c = c and n = 0 and p = p and k = k
        and clm = "color_list_map (build_registry gs)" and m = Map.empty]
    by (simp add: build_frame_map_fold)
qed

lemma build_frame_map_absent:
  assumes "c \<notin> \<Union> (set ` set gs)"
  shows "fold (lists_step (color_list_map (build_registry gs)) k) (enumerate 0 gs) Map.empty c = None"
proof -
  have "color_list_map (build_registry gs) c = None"
    using assms build_registry_dom [of gs] by blast
  then show ?thesis
    using lists_fold_other [where clm = "color_list_map (build_registry gs)" and c = c and n = 0
        and gs = gs and k = k and m = Map.empty] by simp
qed


lemma owner_exists:
  fixes gs :: "color list list"
  assumes "c \<in> \<Union> (set ` set gs)"
  shows "\<exists>i<length gs. c \<in> set (gs ! i) \<and> (\<forall>j<i. c \<notin> set (gs ! j))"
proof -
  from assms obtain i where "color_list_map (build_registry gs) c = Some i"
    using build_registry_dom [of gs] by (auto simp: dom_def)
  then show ?thesis
    using build_registry_map [of gs c i] by blast
qed

lemma build_frame_map_dom:
  "dom (fold (lists_step (color_list_map (build_registry gs)) k) (enumerate 0 gs) Map.empty) =
     \<Union> (set ` set gs)"
proof (rule set_eqI)
  fix c
  let ?t = "fold (lists_step (color_list_map (build_registry gs)) k) (enumerate 0 gs) Map.empty"
  show "c \<in> dom ?t \<longleftrightarrow> c \<in> \<Union> (set ` set gs)"
  proof (cases "c \<in> \<Union> (set ` set gs)")
    case True
    from owner_exists [OF True] obtain i where
      i: "i < length gs" "c \<in> set (gs ! i)" "\<forall>j<i. c \<notin> set (gs ! j)"
      by blast
    from last_position_exists [OF i(2)] obtain p where
      p: "p < length (gs ! i)" "gs ! i ! p = c" "\<forall>q. p < q \<and> q < length (gs ! i) \<longrightarrow> gs ! i ! q \<noteq> c"
      by blast
    from build_frame_map_owner [OF i p, of k] have "?t c \<noteq> None"
      by simp
    with True show ?thesis
      by (simp add: domIff)
  next
    case False
    then have "?t c = None"
      by (rule build_frame_map_absent)
    with False show ?thesis
      by (simp add: domIff)
  qed
qed

text \<open>
  Claim C7. For every frame index the mapping is built without error, and its keys are
  exactly the colours that occur in at least one group, which are also exactly the keys
  of \<^verbatim>\<open>color_list_map\<close> (each colour is entered during the pass of its owning
  group); a colour outside every group is not a key.
\<close>

theorem frame_map_keys:
  "\<exists>t. build_frame_map (color_list_map (build_registry gs)) gs k = Inr t
     \<and> dom t = \<Union> (set ` set gs)
     \<and> dom t = dom (color_list_map (build_registry gs))"
proof -
  let ?t = "fold (lists_step (color_list_map (build_registry gs)) k) (enumerate 0 gs) Map.empty"
  have "build_frame_map (color_list_map (build_registry gs)) gs k = Inr ?t"
    by (rule build_frame_map_fold)
  moreover have "dom ?t = \<Union> (set ` set gs)"
    by (rule build_frame_map_dom)
  moreover have "dom ?t = dom (color_list_map (build_registry gs))"
    unfolding build_frame_map_dom build_registry_dom ..
  ultimately show ?thesis
    by blast
qed

text \<open>
  Claim C10. When group \<open>i\<close> owns the colour \<open>c\<close> (it is the first group containing
  it) and \<open>p\<close> is the last position of \<open>c\<close> in that group, then for every frame
  index \<open>k\<close> the entry for \<open>c\<close> is the group's colour at position
  \<open>(p + k) mod len\<close>: of several occurrences in the owning group the last one
  determines the entry.
\<close>

theorem last_occurrence_wins:
  assumes "i < length gs" "\<forall>j<i. c \<notin> set (gs ! j)"
    and "p < length (gs ! i)" "gs ! i ! p = c"
    and "\<forall>q. p < q \<and> q < length (gs ! i) \<longrightarrow> gs ! i ! q \<noteq> c"
  shows "\<exists>t. build_frame_map (color_list_map (build_registry gs)) gs k = Inr t
     \<and> t c = Some (gs ! i ! nat ((int p + k) mod int (length (gs ! i))))"
proof -
  have "c \<in> set (gs ! i)"
    using assms(3,4) nth_mem by blast
  from build_frame_map_owner [OF assms(1) this assms(2-5), of k] show ?thesis
    by blast
qed

theorem last_occurrence_wins_witness:
  "\<exists>t. build_frame_map
         (color_list_map (build_registry [[(255,0,0),(0,255,0),(255,0,0),(0,0,255)]]))
         [[(255,0,0),(0,255,0),(255,0,0),(0,0,255)]] 1 = Inr t
     \<and> t (255,0,0) = Some (0,0,255)"
proof -
  let ?gs = "[[(255,0,0),(0,255,0),(255,0,0),(0,0,255)]] :: color list list"
  have 1: "0 < length ?gs"
    by simp
  have 2: "\<forall>j<0. (255,0,0) \<notin> set (?gs ! j)"
    by simp
  have 3: "2 < length (?gs ! 0)"
    by simp
  have 4: "?gs ! 0 ! 2 = (255,0,0)"
    by simp
  have 5: "\<forall>q. 2 < q \<and> q < length (?gs ! 0) \<longrightarrow> ?gs ! 0 ! q \<noteq> (255,0,0)"
  proof (intro allI impI)
    fix q :: nat
    assume "2 < q \<and> q < length (?gs ! 0)"
    then have "q = 3"
      by simp
    then show "?gs ! 0 ! q \<noteq> (255,0,0)"
      by simp
  qed
  have 6: "?gs ! 0 ! nat ((int 2 + 1) mod int (length (?gs ! 0))) = (0,0,255)"
    by simp
  from last_occurrence_wins [OF 1 2 3 4 5, of 1] show ?thesis
    unfolding 6 .
qed

section \<open>Periodicity\<close>

lemma rotated_period:
  assumes "int (length cl) dvd N"
  shows "rotated cl (k + N) i = rotated cl k i"
proof -
  from assms obtain q where "N = int (length cl) * q" ..
  then have "(int i + (k + N)) mod int (length cl) = (int i + k) mod int (length cl)"
    by (simp add: add.assoc [symmetric])
  then show ?thesis
    by (simp only:)
qed

lemma colors_step_period:
  assumes "int (length cl) dvd N"
  shows "colors_step clm (k + N) li cl e = colors_step clm k li cl e"
proof -
  have "rotated cl (k + N) (fst e) = rotated cl k (fst e)"
    using assms by (rule rotated_period)
  then show ?thesis
    by (simp only:)
qed

lemma lists_step_period:
  assumes "int (length (snd e)) dvd N"
  shows "lists_step clm (k + N) e = lists_step clm k e"
proof -
  have "colors_step clm (k + N) (fst e) (snd e) = colors_step clm k (fst e) (snd e)"
    by (rule ext) (rule colors_step_period [OF assms])
  then show ?thesis
    by (simp only:)
qed

lemma length_dvd_num_frames:
  "g \<in> set gs \<Longrightarrow> int (length g) dvd int (Lcm (set (map length gs)))"
  by (simp add: dvd_Lcm)

text \<open>
  Claim C4. The number of frames \<open>N\<close> is computed without error and is the least
  common multiple of the lengths of the groups, and for every integer frame index \<open>k\<close>
  the mapping built for \<open>k + N\<close> is the mapping built for \<open>k\<close>: each group's
  length divides \<open>N\<close>, and the rotation depends on the frame index modulo the group's
  length only.
\<close>

theorem full_cycle_period:
  "\<exists>N t. compute_num_frames gs = Inr N
     \<and> N = int (Lcm (set (map length gs)))
     \<and> build_frame_map (color_list_map (build_registry gs)) gs k = Inr t
     \<and> build_frame_map (color_list_map (build_registry gs)) gs (k + N) = Inr t"
proof -
  let ?N = "int (Lcm (set (map length gs)))"
  let ?clm = "color_list_map (build_registry gs)"
  have "fold (lists_step ?clm (k + ?N)) (enumerate 0 gs) Map.empty =
      fold (lists_step ?clm k) (enumerate 0 gs) Map.empty"
  proof (rule fold_cong [OF refl refl])
    fix e
    assume "e \<in> set (enumerate 0 gs)"
    then have "snd e \<in> set gs"
      by (metis map_snd_enumerate set_map imageI)
    then have "int (length (snd e)) dvd ?N"
      by (rule length_dvd_num_frames)
    then show "lists_step ?clm (k + ?N) e = lists_step ?clm k e"
      by (rule lists_step_period)
  qed
  then have "build_frame_map ?clm gs (k + ?N) =
      Inr (fold (lists_step ?clm k) (enumerate 0 gs) Map.empty)"
    by (simp only: build_frame_map_fold)
  moreover have "build_frame_map ?clm gs k = Inr (fold (lists_step ?clm k) (enumerate 0 gs) Map.empty)"
    by (rule build_frame_map_fold)
  moreover have "compute_num_frames gs = Inr ?N"
    by (rule compute_num_frames_Lcm)
  moreover have "?N = int (Lcm (set (map length gs)))"
    by (rule refl)
  ultimately show ?thesis
    by (intro exI [of _ ?N] exI [of _ "fold (lists_step ?clm k) (enumerate 0 gs) Map.empty"] conjI)
qed


section \<open>Ownership\<close>

lemma owner_pass_entry:
  assumes "p < length g" "g ! p = c" "\<forall>q. p < q \<and> q < length g \<longrightarrow> g ! q \<noteq> c" "clm c = Some i"
  shows "\<exists>ti. frame_map_colors clm k i g (enumerate 0 g) Map.empty = Inr ti
     \<and> ti c = Some (rotated g k p)"
  using colors_fold_last [where p = p and xs = g and c = c and clm = clm and li = i and k = k
      and cl = g and n = 0 and m = Map.empty, OF assms]
  by (simp add: frame_map_colors_enumerate)

lemma other_pass_entry:
  assumes "clm c \<noteq> Some j"
  shows "\<exists>m'. frame_map_colors clm k j g (enumerate 0 g) m = Inr m' \<and> m' c = m c"
  using colors_fold_other [where c = c and xs = g and clm = clm and li = j and k = k
      and cl = g and n = 0 and m = m] assms
  by (simp add: frame_map_colors_enumerate)

lemma owner_entry_only:
  assumes "i < length gs" "c \<in> set (gs ! i)" "\<forall>j<i. c \<notin> set (gs ! j)" "j \<noteq> i"
  shows "color_list_map (build_registry gs) c = Some i
     \<and> (\<exists>t ti. build_frame_map (color_list_map (build_registry gs)) gs k = Inr t
          \<and> frame_map_colors (color_list_map (build_registry gs)) k i (gs ! i)
               (enumerate 0 (gs ! i)) Map.empty = Inr ti
          \<and> t c = ti c
          \<and> (\<exists>p<length (gs ! i). gs ! i ! p = c
               \<and> t c = Some (gs ! i ! nat ((int p + k) mod int (length (gs ! i))))))
     \<and> (\<forall>m. \<exists>m'. frame_map_colors (color_list_map (build_registry gs)) k j (gs ! j)
               (enumerate 0 (gs ! j)) m = Inr m' \<and> m' c = m c)"
proof -
  let ?clm = "color_list_map (build_registry gs)"
  have own: "?clm c = Some i"
    using assms(1-3) by (simp add: build_registry_map)
  from last_position_exists [OF assms(2)] obtain p where
    p: "p < length (gs ! i)" "gs ! i ! p = c" "\<forall>q. p < q \<and> q < length (gs ! i) \<longrightarrow> gs ! i ! q \<noteq> c"
    by blast
  from build_frame_map_owner [OF assms(1-3) p, of k] obtain t where
    t: "build_frame_map ?clm gs k = Inr t" "t c = Some (rotated (gs ! i) k p)"
    by blast
  from owner_pass_entry [where g = "gs ! i" and clm = ?clm and k = k, OF p own] obtain ti where
    ti: "frame_map_colors ?clm k i (gs ! i) (enumerate 0 (gs ! i)) Map.empty = Inr ti"
      "ti c = Some (rotated (gs ! i) k p)"
    by blast
  have "?clm c \<noteq> Some j"
    using own assms(4) by simp
  then have "\<forall>m. \<exists>m'. frame_map_colors ?clm k j (gs ! j) (enumerate 0 (gs ! j)) m = Inr m'
      \<and> m' c = m c"
    using other_pass_entry by blast
  with own t ti p show ?thesis
    by auto
qed

lemma two_groups_example:
  "\<exists>t. build_frame_map (color_list_map (build_registry [[A, B], [B, C]])) [[A, B], [B, C]] 1 = Inr t
     \<and> t B = Some A"
proof -
  let ?gs = "[[A, B], [B, C]]"
  have "0 < length ?gs" "B \<in> set (?gs ! 0)" "\<forall>j<0. B \<notin> set (?gs ! j)"
    "1 < length (?gs ! 0)" "?gs ! 0 ! 1 = B"
    "\<forall>q. 1 < q \<and> q < length (?gs ! 0) \<longrightarrow> ?gs ! 0 ! q \<noteq> B"
    by simp_all
  from build_frame_map_owner [OF this, of 1] show ?thesis
    by simp
qed

text \<open>
  Claim C1. Let \<open>c\<close> occur in group \<open>i\<close>, the first group containing it, and in
  another group \<open>j\<close>. Then \<open>i\<close> is the registered owner of \<open>c\<close>, and for every
  frame index the entry of \<open>c\<close> in the mapping is the entry that the pass over group
  \<open>i\<close> alone produces: the colour of group \<open>i\<close> at a position of \<open>c\<close> rotated by
  the frame index. The pass over group \<open>j\<close> leaves the entry of \<open>c\<close> as it finds
  it, whatever the dictionary holds. For the groups \<open>[[A, B], [B, C]]\<close> at frame 1,
  \<open>B\<close> is mapped to \<open>A\<close>.
\<close>

theorem ownership_exclusive:
  "(i < length gs \<and> c \<in> set (gs ! i) \<and> (\<forall>j<i. c \<notin> set (gs ! j))
      \<and> j < length gs \<and> j \<noteq> i \<and> c \<in> set (gs ! j) \<longrightarrow>
     color_list_map (build_registry gs) c = Some i
     \<and> (\<exists>t ti. build_frame_map (color_list_map (build_registry gs)) gs k = Inr t
          \<and> frame_map_colors (color_list_map (build_registry gs)) k i (gs ! i)
               (enumerate 0 (gs ! i)) Map.empty = Inr ti
          \<and> t c = ti c
          \<and> (\<exists>p<length (gs ! i). gs ! i ! p = c
               \<and> t c = Some (gs ! i ! nat ((int p + k) mod int (length (gs ! i))))))
     \<and> (\<forall>m. \<exists>m'. frame_map_colors (color_list_map (build_registry gs)) k j (gs ! j)
               (enumerate 0 (gs ! j)) m = Inr m' \<and> m' c = m c))
   \<and> (\<exists>t. build_frame_map (color_list_map (build_registry [[A, B], [B, C]]))
            [[A, B], [B, C]] 1 = Inr t
        \<and> t B = Some A)"
  using owner_entry_only [of i gs c j k] two_groups_example [of A B C]
  by blast


theorem ownership_exclusive_witness:
  "color_list_map (build_registry [[(255,0,0),(0,255,0)], [(0,255,0),(0,0,255)]]) (0,255,0) = Some 0
   \<and> (\<exists>t ti. build_frame_map
          (color_list_map (build_registry [[(255,0,0),(0,255,0)], [(0,255,0),(0,0,255)]]))
          [[(255,0,0),(0,255,0)], [(0,255,0),(0,0,255)]] 1 = Inr t
        \<and> frame_map_colors
          (color_list_map (build_registry [[(255,0,0),(0,255,0)], [(0,255,0),(0,0,255)]]))
          1 0 [(255,0,0),(0,255,0)] (enumerate 0 [(255,0,0),(0,255,0)]) Map.empty = Inr ti
        \<and> t (0,255,0) = ti (0,255,0))
   \<and> (\<forall>m. \<exists>m'. frame_map_colors
          (color_list_map (build_registry [[(255,0,0),(0,255,0)], [(0,255,0),(0,0,255)]]))
          1 1 [(0,255,0),(0,0,255)] (enumerate 0 [(0,255,0),(0,0,255)]) m = Inr m'
        \<and> m' (0,255,0) = m (0,255,0))
   \<and> (\<exists>t. build_frame_map
          (color_list_map (build_registry [[(255,0,0),(0,255,0)], [(0,255,0),(0,0,255)]]))
          [[(255,0,0),(0,255,0)], [(0,255,0),(0,0,255)]] 1 = Inr t
        \<and> t (0,255,0) = Some (255,0,0))"
proof -
  let ?gs = "[[(255,0,0),(0,255,0)], [(0,255,0),(0,0,255)]] :: color list list"
  note t = ownership_exclusive [of 0 ?gs "(0,255,0)" 1 1 "(255,0,0)" "(0,255,0)" "(0,0,255)"]
  have h: "0 < length ?gs \<and> (0,255,0) \<in> set (?gs ! 0) \<and> (\<forall>j<0. (0,255,0) \<notin> set (?gs ! j))
      \<and> 1 < length ?gs \<and> (1::nat) \<noteq> 0 \<and> (0,255,0) \<in> set (?gs ! 1)"
    by simp
  have g0: "?gs ! 0 = [(255,0,0),(0,255,0)]" and g1: "?gs ! 1 = [(0,255,0),(0,0,255)]"
    by simp_all
  from t [THEN conjunct1, rule_format, OF h, unfolded g0 g1] t [THEN conjunct2] show ?thesis
    by blast
qed

section \<open>Rendering and the frame loop\<close>

lemma apply_color_mapping_upt:
  "length (cells s a) = n \<Longrightarrow> i \<le> n \<Longrightarrow>
   apply_color_mapping t a [i..<n] s =
     Inr (s\<lparr>cells := (cells s)(a := take i (cells s a) @ map (substituted t) (drop i (cells s a)))\<rparr>)"
proof (induction "n - i" arbitrary: i s)
  case 0
  then show ?case by simp
next
  case (Suc d)
  let ?l = "cells s a"
  from Suc have i: "i < n" and d: "d = n - Suc i" and le: "Suc i \<le> n"
    by auto
  have upt: "[i..<n] = i # [Suc i..<n]"
    using i by (simp add: upt_conv_Cons)
  have get: "py_getitem ?l (int i) = Inr (?l ! i)"
    using i Suc.prems by (simp add: py_getitem_nat)
  have split: "take i ?l @ map (substituted t) (drop i ?l) =
      take i ?l @ substituted t (?l ! i) # map (substituted t) (drop (Suc i) ?l)"
    using i Suc.prems by (simp add: Cons_nth_drop_Suc [symmetric])
  show ?case
  proof (cases "t (?l ! i)")
    case None
    have "take (Suc i) ?l @ map (substituted t) (drop (Suc i) ?l) =
        take i ?l @ map (substituted t) (drop i ?l)"
      using i Suc.prems None split by (simp add: take_Suc_conv_app_nth)
    with Suc.hyps(1) [OF d Suc.prems(1) le] None get upt show ?thesis
      by simp
  next
    case (Some v)
    let ?s = "s\<lparr>cells := (cells s)(a := ?l[i := v])\<rparr>"
    have set: "py_setitem ?l (int i) v = Inr (?l[i := v])"
      using i Suc.prems by (simp add: py_setitem_nat)
    have len: "length (cells ?s a) = n"
      using Suc.prems by simp
    have "take (Suc i) (cells ?s a) @ map (substituted t) (drop (Suc i) (cells ?s a)) =
        take i ?l @ map (substituted t) (drop i ?l)"
      using i Suc.prems Some split by (simp add: take_Suc_conv_app_nth)
    with Suc.hyps(1) [OF d len le] Some get set upt show ?thesis
      by simp
  qed
qed


lemma apply_color_mapping_all:
  "apply_color_mapping t a [0..<length (cells s a)] s =
     Inr (s\<lparr>cells := (cells s)(a := map (substituted t) (cells s a))\<rparr>)"
  using apply_color_mapping_upt [of s a "length (cells s a)" 0 t] by simp

lemma generate_frame_eq:
  "generate_frame clm gs b k s frames =
     Inr (s\<lparr>cells := (cells s)(next_free s := map (substituted (frame_table clm gs k)) (cells s b)),
            next_free := Suc (next_free s)\<rparr>,
          frames @ [map (substituted (frame_table clm gs k)) (cells s b)])"
proof -
  let ?s1 = "s\<lparr>cells := (cells s)(next_free s := cells s b), next_free := Suc (next_free s)\<rparr>"
  have "apply_color_mapping (frame_table clm gs k) (next_free s)
          [0..<length (cells ?s1 (next_free s))] ?s1 =
        Inr (?s1\<lparr>cells := (cells ?s1)(next_free s :=
               map (substituted (frame_table clm gs k)) (cells ?s1 (next_free s)))\<rparr>)"
    by (rule apply_color_mapping_all)
  then show ?thesis
    by (simp add: generate_frame_def new_list_def build_frame_map_fold)
qed

lemma generate_frames_loop_eq:
  "b < next_free s \<Longrightarrow>
   \<exists>s'. generate_frames_loop clm gs b ks s frames =
          Inr (s', frames @ map (\<lambda>k. map (substituted (frame_table clm gs k)) (cells s b)) ks)
      \<and> next_free s' = next_free s + length ks
      \<and> (\<forall>a<next_free s. cells s' a = cells s a)"
proof (induction ks arbitrary: s frames)
  case Nil
  then show ?case by simp
next
  case (Cons k ks)
  let ?f = "map (substituted (frame_table clm gs k)) (cells s b)"
  let ?s1 = "s\<lparr>cells := (cells s)(next_free s := ?f), next_free := Suc (next_free s)\<rparr>"
  have b1: "b < next_free ?s1"
    using Cons.prems by simp
  have cb: "cells ?s1 b = cells s b"
    using Cons.prems by simp
  from Cons.IH [OF b1, of "frames @ [?f]"] obtain s' where
    s': "generate_frames_loop clm gs b ks ?s1 (frames @ [?f]) =
          Inr (s', (frames @ [?f]) @
            map (\<lambda>k. map (substituted (frame_table clm gs k)) (cells ?s1 b)) ks)"
      "next_free s' = next_free ?s1 + length ks"
      "\<forall>a<next_free ?s1. cells s' a = cells ?s1 a"
    by blast
  have "generate_frames_loop clm gs b (k # ks) s frames =
      Inr (s', frames @ map (\<lambda>k. map (substituted (frame_table clm gs k)) (cells s b)) (k # ks))"
    using s'(1) unfolding cb by (simp add: generate_frame_eq)
  moreover have "next_free s' = next_free s + length (k # ks)"
    using s'(2) by simp
  moreover have "\<forall>a<next_free s. cells s' a = cells s a"
    using s'(3) by simp
  ultimately show ?case
    by blast
qed

lemma generate_frames_eq:
  "\<exists>s'. generate_frames gs px s =
          Inr (next_free s, s',
               map (\<lambda>k. map (substituted (frame_table (color_list_map (build_registry gs)) gs k)) px)
                 (py_range (int (Lcm (set (map length gs))))))
      \<and> cells s' (next_free s) = px
      \<and> (\<forall>a<next_free s. cells s' a = cells s a)"
proof -
  let ?s1 = "s\<lparr>cells := (cells s)(next_free s := px), next_free := Suc (next_free s)\<rparr>"
  have "next_free s < next_free ?s1"
    by simp
  from generate_frames_loop_eq [OF this, of "color_list_map (build_registry gs)" gs
      "py_range (int (Lcm (set (map length gs))))" "[]"]
  show ?thesis
    by (auto simp: generate_frames_def new_list_def compute_num_frames_Lcm)
qed


lemma frame_table_zero:
  "frame_table (color_list_map (build_registry gs)) gs 0 c =
     (if c \<in> \<Union> (set ` set gs) then Some c else None)"
proof (cases "c \<in> \<Union> (set ` set gs)")
  case True
  from owner_exists [OF True] obtain i where
    i: "i < length gs" "c \<in> set (gs ! i)" "\<forall>j<i. c \<notin> set (gs ! j)"
    by blast
  from last_position_exists [OF i(2)] obtain p where
    p: "p < length (gs ! i)" "gs ! i ! p = c" "\<forall>q. p < q \<and> q < length (gs ! i) \<longrightarrow> gs ! i ! q \<noteq> c"
    by blast
  from build_frame_map_owner [OF i p, of 0] p(1,2) True show ?thesis
    by simp
next
  case False
  then show ?thesis
    by (simp add: build_frame_map_absent)
qed

lemma substituted_zero:
  "map (substituted (frame_table (color_list_map (build_registry gs)) gs 0)) px = px"
  by (rule map_idI) (simp add: frame_table_zero)


lemma num_frames_positive:
  assumes "\<forall>g\<in>set gs. 2 \<le> length g"
  shows "0 < Lcm (set (map length gs))"
proof -
  have "0 \<notin> set (map length gs)"
    using assms by auto
  then have "Lcm (set (map length gs)) \<noteq> 0"
    by (simp add: Lcm_0_iff)
  then show ?thesis
    unfolding neq0_conv .
qed

section \<open>A worked example: one group of three colours\<close>

lemma example_registry:
  "color_list_map (build_registry [[(255,0,0),(0,255,0),(0,0,255)]]) =
     [(255,0,0) \<mapsto> 0, (0,255,0) \<mapsto> 0, (0,0,255) \<mapsto> 0]"
  by (simp add: build_registry_def)

lemma example_num_frames: "compute_num_frames [[(255,0,0),(0,255,0),(0,0,255)]] = Inr 3"
  by (simp add: compute_num_frames_def py_getitem_def py_index_def)

lemma example_tables:
  "build_frame_map [(255,0,0) \<mapsto> 0, (0,255,0) \<mapsto> 0, (0,0,255) \<mapsto> 0]
     [[(255,0,0),(0,255,0),(0,0,255)]] 0 =
     Inr [(255,0,0) \<mapsto> (255,0,0), (0,255,0) \<mapsto> (0,255,0), (0,0,255) \<mapsto> (0,0,255)]"
  "build_frame_map [(255,0,0) \<mapsto> 0, (0,255,0) \<mapsto> 0, (0,0,255) \<mapsto> 0]
     [[(255,0,0),(0,255,0),(0,0,255)]] 1 =
     Inr [(255,0,0) \<mapsto> (0,255,0), (0,255,0) \<mapsto> (0,0,255), (0,0,255) \<mapsto> (255,0,0)]"
  "build_frame_map [(255,0,0) \<mapsto> 0, (0,255,0) \<mapsto> 0, (0,0,255) \<mapsto> 0]
     [[(255,0,0),(0,255,0),(0,0,255)]] 2 =
     Inr [(255,0,0) \<mapsto> (0,0,255), (0,255,0) \<mapsto> (255,0,0), (0,0,255) \<mapsto> (0,255,0)]"
  by (simp_all add: build_frame_map_def py_mod_def py_getitem_def py_index_def)

lemma list_of_length_3: "length xs = 3 \<Longrightarrow> xs = [xs ! 0, xs ! 1, xs ! 2]"
  by (auto simp: list_eq_iff_nth_eq less_Suc_eq numeral_3_eq_3 numeral_2_eq_2 nth_Cons')


section \<open>Properties of the rendered frames\<close>

text \<open>
  Claim C3. For frame index 0 the mapping is built without error and sends every colour
  of every group to itself; one iteration of the frame loop at index 0 therefore appends
  a frame equal to the source pixels. When every group has at least two colours the
  frame loop runs at least once, and the first frame of the run equals the source image.
\<close>

theorem identity_at_frame_zero:
  "(\<exists>t. build_frame_map (color_list_map (build_registry gs)) gs 0 = Inr t
      \<and> (\<forall>c\<in>\<Union> (set ` set gs). t c = Some c)
      \<and> (\<exists>s'. generate_frame (color_list_map (build_registry gs)) gs b 0 s frames =
            Inr (s', frames @ [cells s b])))
   \<and> ((\<forall>g\<in>set gs. 2 \<le> length g) \<longrightarrow>
        (\<exists>base_pixels s' frames'. generate_frames gs px s = Inr (base_pixels, s', frames')
           \<and> frames' \<noteq> [] \<and> frames' ! 0 = px))"
proof -
  let ?clm = "color_list_map (build_registry gs)"
  have "build_frame_map ?clm gs 0 = Inr (frame_table ?clm gs 0)"
    by (rule build_frame_map_fold)
  moreover have "\<forall>c\<in>\<Union> (set ` set gs). frame_table ?clm gs 0 c = Some c"
    by (simp add: frame_table_zero)
  moreover have "\<exists>s'. generate_frame ?clm gs b 0 s frames = Inr (s', frames @ [cells s b])"
    by (simp add: generate_frame_eq substituted_zero)
  moreover have "\<exists>b' s' frames'. generate_frames gs px s = Inr (b', s', frames')
      \<and> frames' \<noteq> [] \<and> frames' ! 0 = px"
    if "\<forall>g\<in>set gs. 2 \<le> length g"
  proof -
    let ?N = "int (Lcm (set (map length gs)))"
    from num_frames_positive [OF that] have "py_range ?N = 0 # map int [1..<nat ?N]"
      by (simp add: py_range_def upt_conv_Cons del: upt_Suc)
    with generate_frames_eq [of gs px s] show ?thesis
      by (auto simp: substituted_zero)
  qed
  ultimately show ?thesis
    by blast
qed

theorem identity_at_frame_zero_witness:
  "(\<exists>t. build_frame_map (color_list_map (build_registry [[(255,0,0),(0,255,0),(0,0,255)]]))
          [[(255,0,0),(0,255,0),(0,0,255)]] 0 = Inr t
        \<and> t (255,0,0) = Some (255,0,0) \<and> t (0,255,0) = Some (0,255,0)
        \<and> t (0,0,255) = Some (0,0,255))
   \<and> (\<exists>b' s' frames'. generate_frames [[(255,0,0),(0,255,0),(0,0,255)]] [(255,0,0),(0,0,255)]
          \<lparr>cells = \<lambda>a. [], next_free = 0\<rparr> = Inr (b', s', frames')
        \<and> frames' \<noteq> [] \<and> frames' ! 0 = [(255,0,0),(0,0,255)])"
proof -
  let ?gs = "[[(255,0,0),(0,255,0),(0,0,255)]] :: color list list"
  let ?px = "[(255,0,0),(0,0,255)] :: color list"
  let ?s = "\<lparr>cells = \<lambda>a. [], next_free = 0\<rparr>"
  note t = identity_at_frame_zero [of ?gs 0 ?s "[]" ?px]
  from t obtain tab where
    tab: "build_frame_map (color_list_map (build_registry ?gs)) ?gs 0 = Inr tab"
      "\<forall>c\<in>\<Union> (set ` set ?gs). tab c = Some c"
    by blast
  from tab(2) have "tab (255,0,0) = Some (255,0,0) \<and> tab (0,255,0) = Some (0,255,0)
      \<and> tab (0,0,255) = Some (0,0,255)"
    by simp
  with tab(1) have 1: "\<exists>t. build_frame_map (color_list_map (build_registry ?gs)) ?gs 0 = Inr t
        \<and> t (255,0,0) = Some (255,0,0) \<and> t (0,255,0) = Some (0,255,0)
        \<and> t (0,0,255) = Some (0,0,255)"
    by blast
  have h: "\<forall>g\<in>set ?gs. 2 \<le> length g"
    by simp
  from t [THEN conjunct2, THEN mp, OF h] 1 show ?thesis
    by blast
qed



text \<open>
  Claim C8. A run computes the number of frames \<open>N\<close> and returns exactly \<open>N\<close>
  frames; the frame at position \<open>i\<close> of the sequence is the source image rendered with
  the mapping built for frame index \<open>i\<close>.
\<close>

theorem sequence_length_and_order:
  "\<exists>N base_pixels s' frames. compute_num_frames gs = Inr N
     \<and> generate_frames gs px s = Inr (base_pixels, s', frames)
     \<and> int (length frames) = N
     \<and> (\<forall>i<length frames. \<exists>t.
          build_frame_map (color_list_map (build_registry gs)) gs (int i) = Inr t
          \<and> frames ! i = map (\<lambda>p. case t p of None \<Rightarrow> p | Some v \<Rightarrow> v) px)"
proof -
  let ?N = "int (Lcm (set (map length gs)))"
  have "compute_num_frames gs = Inr ?N"
    by (rule compute_num_frames_Lcm)
  with generate_frames_eq [of gs px s] show ?thesis
    by (auto simp: py_range_def build_frame_map_fold)
qed

theorem sequence_length_and_order_witness:
  "compute_num_frames [[(255,0,0),(0,255,0),(0,0,255)]] = Inr 3
   \<and> (\<exists>b s'. generate_frames [[(255,0,0),(0,255,0),(0,0,255)]] [(255,0,0),(0,0,255)]
          \<lparr>cells = \<lambda>a. [], next_free = 0\<rparr> =
        Inr (b, s', [[(255,0,0),(0,0,255)], [(0,255,0),(255,0,0)], [(0,0,255),(0,255,0)]]))"
proof -
  let ?gs = "[[(255,0,0),(0,255,0),(0,0,255)]] :: color list list"
  let ?px = "[(255,0,0),(0,0,255)] :: color list"
  let ?s = "\<lparr>cells = \<lambda>a. [], next_free = 0\<rparr>"
  from sequence_length_and_order [of ?gs ?px ?s] obtain N b s' frames where
    n: "compute_num_frames ?gs = Inr N" and
    g: "generate_frames ?gs ?px ?s = Inr (b, s', frames)" and
    l: "int (length frames) = N" and
    f: "\<forall>i<length frames. \<exists>t.
          build_frame_map (color_list_map (build_registry ?gs)) ?gs (int i) = Inr t
          \<and> frames ! i = map (\<lambda>p. case t p of None \<Rightarrow> p | Some v \<Rightarrow> v) ?px"
    by blast
  from n have N: "N = 3"
    by (simp add: example_num_frames)
  with l have len: "length frames = 3"
    by simp
  from f [rule_format, of 0] len have "\<exists>t. build_frame_map (color_list_map (build_registry ?gs)) ?gs (int 0) = Inr t
      \<and> frames ! 0 = map (\<lambda>p. case t p of None \<Rightarrow> p | Some v \<Rightarrow> v) ?px"
    by simp
  then have f0: "frames ! 0 = [(255,0,0),(0,0,255)]"
    by (auto simp: example_registry example_tables)
  from f [rule_format, of 1] len have "\<exists>t. build_frame_map (color_list_map (build_registry ?gs)) ?gs (int 1) = Inr t
      \<and> frames ! 1 = map (\<lambda>p. case t p of None \<Rightarrow> p | Some v \<Rightarrow> v) ?px"
    by simp
  then have f1: "frames ! 1 = [(0,255,0),(255,0,0)]"
    by (auto simp: example_registry example_tables)
  from f [rule_format, of 2] len have "\<exists>t. build_frame_map (color_list_map (build_registry ?gs)) ?gs (int 2) = Inr t
      \<and> frames ! 2 = map (\<lambda>p. case t p of None \<Rightarrow> p | Some v \<Rightarrow> v) ?px"
    by simp
  then have f2: "frames ! 2 = [(0,0,255),(0,255,0)]"
    by (auto simp: example_registry example_tables)
  from list_of_length_3 [OF len] f0 f1 f2
  have "frames = [[(255,0,0),(0,0,255)], [(0,255,0),(255,0,0)], [(0,0,255),(0,255,0)]]"
    by simp
  with g n N show ?thesis
    by blast
qed


text \<open>
  Claim C9. After the frame loop of a run the list at \<^verbatim>\<open>base_pixels\<close> still holds
  the source pixels, and so does every list allocated before the run. Each iteration of
  the frame loop allocates one new list and changes no other cell of the store.
\<close>

theorem source_raster_unchanged:
  "(\<exists>base_pixels s' frames. generate_frames gs px s = Inr (base_pixels, s', frames)
      \<and> base_pixels = next_free s \<and> cells s' base_pixels = px
      \<and> (\<forall>a<next_free s. cells s' a = cells s a))
   \<and> (\<exists>s' frames'. generate_frame clm gs b k s frames = Inr (s', frames')
        \<and> next_free s' = Suc (next_free s)
        \<and> (\<forall>a. a \<noteq> next_free s \<longrightarrow> cells s' a = cells s a))"
proof -
  have "\<exists>base_pixels s' frames. generate_frames gs px s = Inr (base_pixels, s', frames)
      \<and> base_pixels = next_free s \<and> cells s' base_pixels = px
      \<and> (\<forall>a<next_free s. cells s' a = cells s a)"
    using generate_frames_eq [of gs px s] by blast
  moreover have "\<exists>s' frames'. generate_frame clm gs b k s frames = Inr (s', frames')
        \<and> next_free s' = Suc (next_free s)
        \<and> (\<forall>a. a \<noteq> next_free s \<longrightarrow> cells s' a = cells s a)"
    by (simp add: generate_frame_eq)
  ultimately show ?thesis
    by blast
qed

theorem source_raster_unchanged_witness:
  "(\<exists>s' frames. generate_frames [[(255,0,0),(0,255,0),(0,0,255)]] [(255,0,0),(0,0,255)]
          \<lparr>cells = (\<lambda>a. [])(0 := [(9,9,9)]), next_free = 1\<rparr> = Inr (1, s', frames)
        \<and> cells s' 1 = [(255,0,0),(0,0,255)] \<and> cells s' 0 = [(9,9,9)])
   \<and> (\<exists>s' frames'. generate_frame Map.empty [[(255,0,0),(0,255,0),(0,0,255)]] 0 1
          \<lparr>cells = (\<lambda>a. [])(0 := [(9,9,9)]), next_free = 1\<rparr> [] = Inr (s', frames')
        \<and> next_free s' = 2 \<and> cells s' 0 = [(9,9,9)])"
proof -
  let ?gs = "[[(255,0,0),(0,255,0),(0,0,255)]] :: color list list"
  let ?px = "[(255,0,0),(0,0,255)] :: color list"
  let ?s = "\<lparr>cells = (\<lambda>a. [])(0 := [(9,9,9)]), next_free = 1\<rparr>"
  note t = source_raster_unchanged [of ?gs ?px ?s Map.empty 0 1 "[]"]
  from t obtain b s' frames where
    g: "generate_frames ?gs ?px ?s = Inr (b, s', frames)" "b = next_free ?s" "cells s' b = ?px"
      "\<forall>a<next_free ?s. cells s' a = cells ?s a"
    by blast
  from g(4) have "cells s' 0 = cells ?s 0"
    by simp
  with g have 1: "\<exists>s' frames. generate_frames ?gs ?px ?s = Inr (1, s', frames)
        \<and> cells s' 1 = ?px \<and> cells s' 0 = [(9,9,9)]"
    by auto
  from t obtain s2 frames' where
    h: "generate_frame Map.empty ?gs 0 1 ?s [] = Inr (s2, frames')"
      "next_free s2 = Suc (next_free ?s)" "\<forall>a. a \<noteq> next_free ?s \<longrightarrow> cells s2 a = cells ?s a"
    by blast
  from h(3) have "cells s2 0 = cells ?s 0"
    by simp
  with h have 2: "\<exists>s' frames'. generate_frame Map.empty ?gs 0 1 ?s [] = Inr (s', frames')
        \<and> next_free s' = 2 \<and> cells s' 0 = [(9,9,9)]"
    by auto
  from 1 2 show ?thesis
    by blast
qed

end
